theory Spec2Isabelle
  imports Complex_Main "HOL-Library.Word" "HOL-Library.Sublist"
begin

unbundle bit_operations_syntax

section \<open>Data model\<close>

text \<open>
  A Python \<open>str\<close> is a sequence of Unicode code points; \<open>ord\<close> reads a code point
  as an integer. Text is therefore a list of code points, so that identifiers with
  characters above 255 are part of the model. Strings that the code builds from the
  digits \<open>0\<close> and \<open>1\<close> only (the bit strings) and the fixed status words are plain
  \<open>string\<close>s.
\<close>

type_synonym pystr = "nat list"

definition of_ascii :: "string \<Rightarrow> pystr" where
  "of_ascii s = map of_char s"

definition delimiter :: pystr where
  "delimiter = of_ascii ''@@@@''"

definition unknown_text :: pystr where
  "unknown_text = of_ascii ''Unknown''"

text \<open>
  An RGB image as \<open>np.array(image)\<close> sees it: shape \<open>(height, width, 3)\<close> and the
  samples in row-major (row, column, channel) order, which is the order \<open>flatten()\<close>
  yields. Images are taken in mode RGB, so the \<open>convert('RGB')\<close> branch of both codec
  functions is the identity.
\<close>

record image =
  height :: nat
  width :: nat
  pixels :: "8 word list"

definition valid_image :: "image \<Rightarrow> bool" where
  "valid_image im = (length (pixels im) = height im * width im * 3)"

datatype error = ValueError

section \<open>Watermark codec (services/watermarking.py)\<close>

subsection \<open>Bit strings\<close>

definition bit_char :: "nat \<Rightarrow> char" where
  "bit_char d = (if d = 0 then CHR ''0'' else CHR ''1'')"

text \<open>\<open>format(n, 'b')\<close>: the binary digits of \<open>n\<close>, most significant first.\<close>

fun bin_str :: "nat \<Rightarrow> string" where
  "bin_str n = (if n < 2 then [bit_char n] else bin_str (n div 2) @ [bit_char (n mod 2)])"

declare bin_str.simps [simp del]

text \<open>\<open>format(n, '08b')\<close>: padded with zeros on the left to a width of at least 8.\<close>

definition format_08b :: "nat \<Rightarrow> string" where
  "format_08b n = replicate (8 - length (bin_str n)) CHR ''0'' @ bin_str n"

text \<open>
  \<open>int(b, 2)\<close> on a string of binary digits; the empty string and any other character
  raise ValueError, which is \<open>None\<close> here. (Python's \<open>int\<close> also accepts a sign,
  blanks, underscores and a \<open>0b\<close> prefix; the strings it is given here never hold them.)
\<close>

definition is_bit_char :: "char \<Rightarrow> bool" where
  "is_bit_char c = (c = CHR ''0'' \<or> c = CHR ''1'')"

definition bit_val :: "char \<Rightarrow> nat" where
  "bit_val c = (if c = CHR ''1'' then 1 else 0)"

definition bits_val :: "string \<Rightarrow> nat" where
  "bits_val b = foldl (\<lambda>a c. 2 * a + bit_val c) 0 b"

definition int_base2 :: "string \<Rightarrow> nat option" where
  "int_base2 b = (if b \<noteq> [] \<and> list_all is_bit_char b then Some (bits_val b) else None)"

text \<open>\<open>chr(n)\<close> raises ValueError outside the Unicode range.\<close>

definition chr_py :: "nat \<Rightarrow> nat option" where
  "chr_py n = (if n \<le> 0x10FFFF then Some n else None)"

subsection \<open>Substring search\<close>

text \<open>
  \<open>str_find pat s\<close> is the index of the first occurrence of \<open>pat\<close> in \<open>s\<close>;
  \<open>pat in s\<close> is \<open>str_contains\<close> and \<open>s.split(pat)[0]\<close> is \<open>split_head\<close>
  (the whole string when \<open>pat\<close> does not occur).
\<close>

fun str_find :: "'a list \<Rightarrow> 'a list \<Rightarrow> nat option" where
  "str_find pat [] = (if pat = [] then Some 0 else None)"
| "str_find pat (x # xs) =
     (if prefix pat (x # xs) then Some 0 else map_option Suc (str_find pat xs))"

definition str_contains :: "'a list \<Rightarrow> 'a list \<Rightarrow> bool" where
  "str_contains pat s = (str_find pat s \<noteq> None)"

definition split_head :: "'a list \<Rightarrow> 'a list \<Rightarrow> 'a list" where
  "split_head pat s = (case str_find pat s of None \<Rightarrow> s | Some i \<Rightarrow> take i s)"

subsection \<open>embed_watermark_lsb\<close>

text \<open>
  The bit string written into the image: \<open>format(ord(i), '08b')\<close> of every character
  of \<open>watermark_text + "@@@@"\<close>, joined, then repeated \<open>strength\<close> times (Python's
  \<open>str * int\<close> is empty for a count below 1).
\<close>

definition serialize :: "pystr \<Rightarrow> string" where
  "serialize data = concat (map format_08b data)"

definition binary_data_of :: "pystr \<Rightarrow> int \<Rightarrow> string" where
  "binary_data_of watermark_text strength =
     concat (replicate (nat strength) (serialize (watermark_text @ delimiter)))"

text \<open>
  The memory the embedding loop works on: \<open>src\<close> is the buffer of the caller's image,
  \<open>flat\<close> the uint16 copy made by \<open>np.array(image, dtype=np.uint16).flatten()\<close>.
  One pass of the loop body writes \<open>flat[i] = (int(flat[i]) & 0xFE) | int(binary_data[i])\<close>.
\<close>

record embed_mem =
  src :: "8 word list"
  flat :: "16 word list"

text \<open>
  \<open>int(binary_data[i])\<close> reads one digit; \<open>binary_data\<close> holds the digits 0 and 1 only
  (lemma \<open>binary_data_bits\<close>), so the conversion cannot raise.
\<close>

definition int_digit :: "char \<Rightarrow> 16 word" where
  "int_digit c = (if c = CHR ''1'' then 1 else 0)"

definition embed_step :: "string \<Rightarrow> nat \<Rightarrow> embed_mem \<Rightarrow> embed_mem" where
  "embed_step binary_data i m =
     m\<lparr>flat := (flat m)[i := (flat m ! i AND 0xFE) OR int_digit (binary_data ! i)]\<rparr>"

definition embed_loop :: "string \<Rightarrow> embed_mem \<Rightarrow> embed_mem" where
  "embed_loop binary_data m = fold (embed_step binary_data) [0..<length binary_data] m"

definition load_mem :: "image \<Rightarrow> embed_mem" where
  "load_mem im = \<lparr>src = pixels im, flat = map ucast (pixels im)\<rparr>"

definition embed_watermark_lsb :: "image \<Rightarrow> pystr \<Rightarrow> int \<Rightarrow> error + (image \<times> string)" where
  "embed_watermark_lsb im watermark_text strength =
     (let binary_data = binary_data_of watermark_text strength;
          m = load_mem im
      in if length binary_data > length (flat m) then Inl ValueError
         else
           let m' = embed_loop binary_data m;
               modified_pixels = map (\<lambda>w. ucast (w AND 0xFF)) (flat m')
           in Inr (\<lparr>height = height im, width = width im, pixels = modified_pixels\<rparr>,
                   binary_data))"

subsection \<open>extract_watermark_lsb\<close>

definition lsb_char :: "8 word \<Rightarrow> char" where
  "lsb_char w = (if w AND 1 = 0 then CHR ''0'' else CHR ''1'')"

definition lsb_string :: "8 word list \<Rightarrow> string" where
  "lsb_string fl = map (\<lambda>i. lsb_char (fl ! i)) [0..<min (length fl) 16000]"

text \<open>\<open>[binary_data[i:i+8] for i in range(0, len(binary_data), 8)]\<close>\<close>

definition all_bytes :: "string \<Rightarrow> string list" where
  "all_bytes binary_data =
     map (\<lambda>k. take 8 (drop (8 * k) binary_data)) [0..<(length binary_data + 7) div 8]"

text \<open>The body of the \<open>try\<close> up to \<open>char\<close>: \<open>None\<close> is the \<open>except: continue\<close> path.\<close>

definition decode_byte :: "string \<Rightarrow> nat option" where
  "decode_byte b = (case int_base2 b of None \<Rightarrow> None | Some n \<Rightarrow> chr_py n)"

fun decode_loop :: "string list \<Rightarrow> pystr \<Rightarrow> pystr \<times> real" where
  "decode_loop [] decoded = (unknown_text, 0.1)"
| "decode_loop (b # bs) decoded =
     (case decode_byte b of
        None \<Rightarrow> decode_loop bs decoded
      | Some char \<Rightarrow>
          (let decoded' = decoded @ [char]
           in if str_contains delimiter decoded'
              then (split_head delimiter decoded', 1.0)
              else decode_loop bs decoded'))"

definition extract_watermark_lsb :: "image \<Rightarrow> pystr \<times> real" where
  "extract_watermark_lsb im = decode_loop (all_bytes (lsb_string (pixels im))) []"

text \<open>The characters the loop has appended once it has gone through the groups \<open>bs\<close>.\<close>

definition decoded_chars :: "string list \<Rightarrow> pystr" where
  "decoded_chars bs = List.map_filter decode_byte bs"

text \<open>
  A one-row image of the given width whose samples are the given binary digits, so that
  the digits are its least-significant bits; used to place bits at chosen sample offsets.
\<close>

definition bit_sample :: "char \<Rightarrow> 8 word" where
  "bit_sample c = (if c = CHR ''1'' then 1 else 0)"

definition bits_image :: "nat \<Rightarrow> string \<Rightarrow> image" where
  "bits_image w bits = \<lparr>height = 1, width = w, pixels = map bit_sample bits\<rparr>"

text \<open>The text decoded from the whole scan window of an image.\<close>

definition window_text :: "image \<Rightarrow> pystr" where
  "window_text im = decoded_chars (all_bytes (lsb_string (pixels im)))"

section \<open>Verification classifier (routes/verify.py)\<close>

text \<open>
  Python floats are modelled as reals: the classifier only compares \<open>match_ratio\<close>
  with literals and truncates an affine expression of it. \<open>int(x)\<close> on a float
  truncates towards zero. Binary floating point rounds each operation, so a confidence
  computed here can differ by one from the program's (\<open>int(90 + (1.0 - 0.9) * 100)\<close> is
  99 in floating point and 100 over the reals); the comparisons with the thresholds and
  the clamp to 0..100, which the results below are about, do not depend on the rounding.
\<close>

definition py_int :: "real \<Rightarrow> int" where
  "py_int x = (if 0 \<le> x then \<lfloor>x\<rfloor> else \<lceil>x\<rceil>)"

text \<open>
  Modelled from the spec: the stored watermark record returned by the record store
  (\<open>app.storage.db\<close> is not among the sources). \<open>verify_image\<close> reads only its owner;
  a record object is truthy, so \<open>if record\<close> and \<open>record is not None\<close> agree.
\<close>

record watermark_record =
  record_owner_id :: pystr

record verify_response =
  watermark_found :: bool
  owner_id :: "pystr option"
  confidence :: int
  tamper_status :: string
  extracted_text :: pystr
  match_ratio :: real

text \<open>Lines 57-76 of \<open>verify_image\<close>: the confidence and tamper branches and the clamp.\<close>

definition classify :: "bool \<Rightarrow> real \<Rightarrow> int \<times> string" where
  "classify found ratio =
     (let (c, tamper) =
        (if found then
           (if ratio > 0.9 then (py_int (90 + (ratio - 0.9) * 100), ''intact'')
            else if ratio > 0.7 then (py_int (60 + (ratio - 0.7) * 100), ''modified'')
            else (py_int (40 + ratio * 100), ''modified''))
         else
           (if ratio > 0.4 then (py_int (20 + ratio * 80), ''modified'')
            else (py_int (ratio * 40), ''no watermark'')))
      in (max 0 (min 100 c), tamper))"

text \<open>
  \<open>verify_image\<close> from the extraction result on; the result of the store lookup
  \<open>get_by_owner_and_hash_prefix\<close> is the parameter \<open>rec\<close>.
\<close>

definition verify_image :: "pystr \<times> real \<Rightarrow> watermark_record option \<Rightarrow> verify_response" where
  "verify_image extraction rec =
     (let (text, ratio) = extraction;
          found = (rec \<noteq> None \<or> (ratio > 0.5 \<and> text \<noteq> unknown_text));
          owner = (case rec of Some r \<Rightarrow> Some (record_owner_id r)
                   | None \<Rightarrow> (if text \<noteq> unknown_text then Some text else None));
          (c, tamper) = classify found ratio
      in \<lparr>watermark_found = found, owner_id = owner, confidence = c,
          tamper_status = tamper, extracted_text = text, match_ratio = ratio\<rparr>)"

text \<open>
  The rules for \<open>found\<close> and \<open>owner_id\<close> as the specification words them, with the
  sentinel spelled in lower case; kept apart from the code's own rules for comparison.
\<close>

definition spec_sentinel :: pystr where
  "spec_sentinel = of_ascii ''unknown''"

definition spec_found :: "pystr \<times> real \<Rightarrow> watermark_record option \<Rightarrow> bool" where
  "spec_found extraction rec =
     (rec \<noteq> None \<or> (snd extraction > 0.5 \<and> fst extraction \<noteq> spec_sentinel))"

definition spec_owner :: "pystr \<times> real \<Rightarrow> watermark_record option \<Rightarrow> pystr option" where
  "spec_owner extraction rec =
     (case rec of Some r \<Rightarrow> Some (record_owner_id r)
      | None \<Rightarrow> (if fst extraction \<noteq> spec_sentinel then Some (fst extraction) else None))"

section \<open>Protection route (routes/protection.py)\<close>

text \<open>Lines 33-35 of \<open>process_protection\<close>: the epsilon handed to the perturber.\<close>

definition process_epsilon :: "real \<Rightarrow> real" where
  "process_epsilon strength = (if strength > 1.0 then (strength / 100.0) * 0.05 else strength)"

section \<open>Bit strings and byte groups\<close>

lemma bin_str_nonempty: "bin_str n \<noteq> []"
  by (subst bin_str.simps) simp

lemma is_bit_char_bit_char: "is_bit_char (bit_char d)"
  by (simp add: bit_char_def is_bit_char_def)

lemma bin_str_bits: "list_all is_bit_char (bin_str n)"
proof (induction n rule: bin_str.induct)
  case (1 n)
  show ?case
  proof (cases "n < 2")
    case True
    then show ?thesis by (subst bin_str.simps) (simp add: is_bit_char_bit_char)
  next
    case False
    with 1 show ?thesis by (subst bin_str.simps) (simp add: is_bit_char_bit_char)
  qed
qed

lemma bits_val_snoc: "bits_val (xs @ [c]) = 2 * bits_val xs + bit_val c"
  by (simp add: bits_val_def)

lemma bit_val_bit_char: "d < 2 \<Longrightarrow> bit_val (bit_char d) = d"
  by (auto simp: bit_val_def bit_char_def)

lemma bits_val_bin_str: "bits_val (bin_str n) = n"
proof (induction n rule: bin_str.induct)
  case (1 n)
  show ?case
  proof (cases "n < 2")
    case True
    then show ?thesis by (subst bin_str.simps) (simp add: bits_val_def bit_val_bit_char)
  next
    case False
    with 1 have "bits_val (bin_str (n div 2)) = n div 2" by simp
    with False show ?thesis
      by (subst bin_str.simps) (simp add: bits_val_snoc bit_val_bit_char)
  qed
qed

lemma length_bin_str: "0 < k \<Longrightarrow> n < 2 ^ k \<Longrightarrow> length (bin_str n) \<le> k"
proof (induction n arbitrary: k rule: bin_str.induct)
  case (1 n)
  show ?case
  proof (cases "n < 2")
    case True
    with 1(2) show ?thesis by (subst bin_str.simps) simp
  next
    case False
    from 1(2) obtain j where j: "k = Suc j" by (cases k) auto
    have "0 < j"
    proof (rule ccontr)
      assume "\<not> 0 < j"
      with j 1(3) False show False by simp
    qed
    moreover from 1(3) j have "n div 2 < 2 ^ j" by auto
    ultimately have "length (bin_str (n div 2)) \<le> j" using 1(1)[OF False] by simp
    with False j show ?thesis by (subst bin_str.simps) simp
  qed
qed

lemma bits_val_zeros: "bits_val (replicate k CHR ''0'' @ xs) = bits_val xs"
  by (induction k) (simp_all add: bits_val_def bit_val_def)

lemma length_format_08b: "n < 256 \<Longrightarrow> length (format_08b n) = 8"
  using length_bin_str[of 8 n] by (simp add: format_08b_def)

lemma format_08b_bits: "list_all is_bit_char (format_08b n)"
proof -
  have "list_all is_bit_char (replicate k CHR ''0'')" for k
    by (induction k) (simp_all add: is_bit_char_def)
  then show ?thesis by (simp add: format_08b_def bin_str_bits)
qed

lemma format_08b_nonempty: "format_08b n \<noteq> []"
  by (simp add: format_08b_def bin_str_nonempty)

lemma bits_val_format: "bits_val (format_08b n) = n"
  by (simp add: format_08b_def bits_val_zeros bits_val_bin_str)

lemma int_base2_format: "int_base2 (format_08b n) = Some n"
  using format_08b_bits[of n] format_08b_nonempty[of n] bits_val_format[of n]
  by (simp add: int_base2_def)

lemma decode_byte_format: "n < 256 \<Longrightarrow> decode_byte (format_08b n) = Some n"
  by (simp add: decode_byte_def int_base2_format chr_py_def)


lemma all_bytes_Nil: "all_bytes [] = []"
  by (simp add: all_bytes_def)

lemma upt_0_Suc: "[0..<Suc m] = 0 # map Suc [0..<m]"
proof -
  have "[0..<Suc m] = 0 # [Suc 0..<Suc m]" by (rule upt_conv_Cons) simp
  also have "[Suc 0..<Suc m] = map Suc [0..<m]" by (rule map_Suc_upt[symmetric])
  finally show ?thesis .
qed

lemma chunk_count: "0 < (l::nat) \<Longrightarrow> (l + 7) div 8 = Suc ((l - 8 + 7) div 8)"
proof (cases "8 \<le> l")
  case True
  then obtain m where m: "l = 8 + m" by (auto simp: le_iff_add)
  show ?thesis unfolding m by simp
next
  case False
  assume "0 < l"
  then obtain j where j: "l = Suc j" by (cases l) auto
  with False have "j < 7" by simp
  then have "(j + 8) div 8 = Suc 0" by simp
  with False j show ?thesis by simp
qed

lemma all_bytes_rec: "xs \<noteq> [] \<Longrightarrow> all_bytes xs = take 8 xs # all_bytes (drop 8 xs)"
proof -
  assume ne: "xs \<noteq> []"
  then have len: "0 < length xs" by simp
  have step: "take 8 (drop (8 * Suc k) xs) = take 8 (drop (8 * k) (drop 8 xs))" for k
    by (simp only: drop_drop mult_Suc_right add.commute)
  have "all_bytes xs = map (\<lambda>k. take 8 (drop (8 * k) xs)) [0..<Suc ((length xs - 8 + 7) div 8)]"
    by (simp only: all_bytes_def chunk_count[OF len])
  also have "\<dots> = take 8 xs # map (\<lambda>k. take 8 (drop (8 * Suc k) xs)) [0..<(length xs - 8 + 7) div 8]"
    by (simp only: upt_0_Suc list.map map_map o_def mult_0_right drop_0)
  also have "\<dots> = take 8 xs # all_bytes (drop 8 xs)"
    by (simp only: step all_bytes_def length_drop)
  finally show ?thesis .
qed

lemma all_bytes_chunk: "length x = 8 \<Longrightarrow> all_bytes (x @ rest) = x # all_bytes rest"
proof -
  assume l: "length x = 8"
  then have "x @ rest \<noteq> []" by auto
  from all_bytes_rec[OF this] l show ?thesis by simp
qed

lemma all_bytes_serialize:
  "list_all (\<lambda>c. c < 256) data \<Longrightarrow> all_bytes (serialize data @ rest) = map format_08b data @ all_bytes rest"
  by (induction data) (simp_all add: serialize_def all_bytes_chunk length_format_08b)

lemma all_bytes_append:
  "8 dvd length xs \<Longrightarrow> all_bytes (xs @ ys) = all_bytes xs @ all_bytes ys"
proof (induction xs rule: length_induct)
  case (1 xs)
  show ?case
  proof (cases "xs = []")
    case True
    then show ?thesis by (simp add: all_bytes_Nil)
  next
    case False
    with 1(2) have l8: "8 \<le> length xs" by (auto dest: dvd_imp_le)
    then have t: "length (take 8 xs) = 8" by simp
    have d: "8 dvd length (drop 8 xs)" using 1(2) l8 by (simp add: dvd_diff_nat)
    have "length (drop 8 xs) < length xs" using l8 by simp
    with 1(1) d have ih: "all_bytes (drop 8 xs @ ys) = all_bytes (drop 8 xs) @ all_bytes ys" by blast
    have "all_bytes (xs @ ys) = all_bytes (take 8 xs @ (drop 8 xs @ ys))"
      by (simp only: append_assoc[symmetric] append_take_drop_id)
    also have "\<dots> = take 8 xs # all_bytes (drop 8 xs @ ys)" using t by (rule all_bytes_chunk)
    also have "\<dots> = all_bytes xs @ all_bytes ys" using ih by (simp only: all_bytes_rec[OF False] append_Cons)
    finally show ?thesis .
  qed
qed

section \<open>Substring search and the decoding loop\<close>

lemma str_find_bound: "str_find pat s = Some i \<Longrightarrow> i + length pat \<le> length s"
proof (induction s arbitrary: i)
  case Nil
  then show ?case by (simp split: if_splits)
next
  case (Cons x xs)
  show ?case
  proof (cases "prefix pat (x # xs)")
    case True
    with Cons.prems have "i = 0" by simp
    with prefix_length_le[OF True] show ?thesis by simp
  next
    case False
    with Cons.prems obtain j where j: "str_find pat xs = Some j" "i = Suc j" by auto
    from Cons.IH[OF j(1)] j(2) show ?thesis by simp
  qed
qed

lemma prefix_append_long: "length pat \<le> length s \<Longrightarrow> prefix pat (s @ t) = prefix pat s"
  by (auto simp: prefix_def append_eq_append_conv2) 

lemma str_find_append: "str_find pat s = Some i \<Longrightarrow> str_find pat (s @ t) = Some i"
proof (induction s arbitrary: i)
  case Nil
  then have "pat = []" "i = 0" by (simp_all split: if_splits)
  then show ?case by (cases t) simp_all
next
  case (Cons x xs)
  from str_find_bound[OF Cons.prems] have len: "length pat \<le> length (x # xs)" by simp
  have pre: "prefix pat ((x # xs) @ t) = prefix pat (x # xs)"
    using len by (rule prefix_append_long)
  show ?case
  proof (cases "prefix pat (x # xs)")
    case True
    with Cons.prems pre show ?thesis by simp
  next
    case False
    with Cons.prems obtain j where j: "str_find pat xs = Some j" "i = Suc j" by auto
    from Cons.IH[OF j(1)] j(2) False pre show ?thesis by simp
  qed
qed

lemma str_find_prefix: "str_find pat (pat @ b) = Some 0"
proof (cases "pat @ b")
  case Nil
  then show ?thesis by simp
next
  case (Cons x xs)
  have "prefix pat (pat @ b)" by simp
  with Cons show ?thesis by simp
qed

lemma str_contains_mid: "str_contains pat (a @ pat @ b)"
proof (induction a)
  case Nil
  show ?case by (simp add: str_contains_def str_find_prefix)
next
  case (Cons x a)
  then show ?case by (auto simp: str_contains_def)
qed

lemma str_contains_append: "str_contains pat s \<Longrightarrow> str_contains pat (s @ t)"
  by (auto simp: str_contains_def dest: str_find_append)

lemma split_head_append: "str_contains pat s \<Longrightarrow> split_head pat (s @ t) = split_head pat s"
proof -
  assume "str_contains pat s"
  then obtain i where i: "str_find pat s = Some i" by (auto simp: str_contains_def)
  from str_find_bound[OF i] have "i \<le> length s" by simp
  with i str_find_append[OF i, of t] show ?thesis by (simp add: split_head_def)
qed

lemma decoded_chars_Nil: "decoded_chars [] = []"
  by (simp add: decoded_chars_def map_filter_simps)

lemma decoded_chars_Cons:
  "decoded_chars (b # bs) = (case decode_byte b of None \<Rightarrow> decoded_chars bs | Some c \<Rightarrow> c # decoded_chars bs)"
  by (simp add: decoded_chars_def map_filter_simps split: option.splits)

lemma decoded_chars_append: "decoded_chars (xs @ ys) = decoded_chars xs @ decoded_chars ys"
  by (simp add: decoded_chars_def map_filter_def)

lemma decode_loop_eager:
  "\<not> str_contains delimiter acc \<Longrightarrow>
   decode_loop bs acc =
     (if str_contains delimiter (acc @ decoded_chars bs)
      then (split_head delimiter (acc @ decoded_chars bs), 1)
      else (unknown_text, 0.1))"
proof (induction bs arbitrary: acc)
  case Nil
  then show ?case by (simp add: decoded_chars_Nil)
next
  case (Cons b bs)
  show ?case
  proof (cases "decode_byte b")
    case None
    with Cons show ?thesis by (simp add: decoded_chars_Cons)
  next
    case (Some c)
    show ?thesis
    proof (cases "str_contains delimiter (acc @ [c])")
      case True
      from str_contains_append[OF True, of "decoded_chars bs"]
        split_head_append[OF True, of "decoded_chars bs"] True Some
      show ?thesis by (simp add: decoded_chars_Cons)
    next
      case False
      from Cons.IH[OF False] False Some show ?thesis by (simp add: decoded_chars_Cons)
    qed
  qed
qed

lemma delimiter_not_in_empty: "\<not> str_contains delimiter []"
  by (simp add: str_contains_def delimiter_def of_ascii_def)

lemma extract_eager:
  "extract_watermark_lsb im =
     (let decoded = decoded_chars (all_bytes (lsb_string (pixels im)))
      in if str_contains delimiter decoded then (split_head delimiter decoded, 1)
         else (unknown_text, 0.1))"
  using decode_loop_eager[OF delimiter_not_in_empty]
  by (simp add: extract_watermark_lsb_def Let_def)

section \<open>The embedding loop\<close>

lemma ff_mask: "(0xFF :: 16 word) = mask 8"
  by (simp add: mask_eq_exp_minus_1)

lemma fe_not1: "(0xFE :: 8 word) = NOT 1"
  by simp

lemma fe16: "(0xFE :: 16 word) = mask 8 AND NOT 1"
  by (simp add: mask_eq_exp_minus_1)

lemma embed_sample_word: "ucast (((ucast (p::8 word) :: 16 word) AND 0xFE OR int_digit c) AND 0xFF)
   = ((p AND 0xFE) OR (if c = CHR ''1'' then 1 else 0) :: 8 word)"
  unfolding ff_mask fe_not1 fe16
  apply (rule bit_word_eqI)
  apply (auto simp add: bit_simps int_digit_def)
  done

lemma ucast_roundtrip_word: "ucast ((ucast (p::8 word) :: 16 word) AND 0xFF) = p"
  unfolding ff_mask
  apply (rule bit_word_eqI)
  apply (auto simp add: bit_simps)
  done

lemma embed_sample_bits: "bit ((p AND 0xFE) OR (if c then 1 else 0) :: 8 word) k = (if k = 0 then c else bit p k)"
  unfolding fe_not1
  by (auto simp add: bit_simps bit_0 dest: bit_imp_le_length)

lemma lsb_char_embed_sample: "lsb_char ((p AND 0xFE) OR (if c = CHR ''1'' then 1 else 0)) = (if c = CHR ''1'' then CHR ''1'' else CHR ''0'')"
proof -
  have "(((p AND 0xFE) OR (if c = CHR ''1'' then 1 else 0)) AND 1 = 0) = (\<not> bit ((p AND 0xFE) OR (if c = CHR ''1'' then 1 else 0)) 0)"
    by (simp add: and_one_eq bit_0 mod2_eq_if even_or_iff)
  then show ?thesis unfolding lsb_char_def embed_sample_bits by simp
qed


lemma embed_fold:
  "n \<le> length (flat m) \<Longrightarrow>
   src (fold (embed_step bits) [0..<n] m) = src m
   \<and> length (flat (fold (embed_step bits) [0..<n] m)) = length (flat m)
   \<and> (\<forall>i. flat (fold (embed_step bits) [0..<n] m) ! i =
         (if i < n then (flat m ! i AND 0xFE) OR int_digit (bits ! i) else flat m ! i))"
proof (induction n)
  case 0
  then show ?case by simp
next
  case (Suc n)
  then have le: "n \<le> length (flat m)" and lt: "n < length (flat m)" by simp_all
  let ?m = "fold (embed_step bits) [0..<n] m"
  from Suc.IH[OF le] have ih:
    "src ?m = src m" "length (flat ?m) = length (flat m)"
    "\<And>i. flat ?m ! i = (if i < n then (flat m ! i AND 0xFE) OR int_digit (bits ! i) else flat m ! i)"
    by simp_all
  have step: "fold (embed_step bits) [0..<Suc n] m = embed_step bits n ?m" by simp
  have "flat (embed_step bits n ?m) ! i =
        (if i < Suc n then (flat m ! i AND 0xFE) OR int_digit (bits ! i) else flat m ! i)" for i
  proof (cases "i = n")
    case True
    with lt ih show ?thesis by (simp add: embed_step_def)
  next
    case False
    with ih show ?thesis by (auto simp add: embed_step_def)
  qed
  with ih show ?case unfolding step by (simp add: embed_step_def)
qed

lemma embed_loop_props:
  assumes "length bits \<le> length (pixels im)"
  shows "src (embed_loop bits (load_mem im)) = pixels im"
    and "length (flat (embed_loop bits (load_mem im))) = length (pixels im)"
    and "i < length (pixels im) \<Longrightarrow> flat (embed_loop bits (load_mem im)) ! i =
         (if i < length bits then (ucast (pixels im ! i) AND 0xFE) OR int_digit (bits ! i)
          else ucast (pixels im ! i))"
  using embed_fold[of "length bits" "load_mem im" bits] assms
  by (simp_all add: embed_loop_def load_mem_def)

lemma embed_success:
  assumes "length (binary_data_of t s) \<le> length (pixels im)"
  shows "embed_watermark_lsb im t s =
     Inr (\<lparr>height = height im, width = width im,
           pixels = map (\<lambda>w. ucast (w AND 0xFF)) (flat (embed_loop (binary_data_of t s) (load_mem im)))\<rparr>,
          binary_data_of t s)"
  using assms by (simp add: embed_watermark_lsb_def Let_def load_mem_def)

lemma embed_failure:
  "length (binary_data_of t s) > length (pixels im) \<Longrightarrow> embed_watermark_lsb im t s = Inl ValueError"
  by (simp add: embed_watermark_lsb_def Let_def load_mem_def)

lemma embed_pixels_nth:
  assumes "length bits \<le> length (pixels im)" and "i < length (pixels im)"
  shows "map (\<lambda>w. ucast (w AND 0xFF)) (flat (embed_loop bits (load_mem im))) ! i =
     (if i < length bits then (pixels im ! i AND 0xFE) OR (if bits ! i = CHR ''1'' then 1 else 0)
      else pixels im ! i)"
  using embed_loop_props(2,3)[OF assms(1)] assms(2)
  by (simp add: embed_sample_word ucast_roundtrip_word)

lemma lsb_string_eq: "lsb_string fl = map lsb_char (take 16000 fl)"
  by (rule nth_equalityI) (simp_all add: lsb_string_def)

lemma is_bit_char_lsb_char: "is_bit_char (lsb_char w)"
  by (simp add: lsb_char_def is_bit_char_def)

lemma lsb_string_bits: "list_all is_bit_char (lsb_string fl)"
  by (simp add: lsb_string_eq list_all_iff is_bit_char_lsb_char)

lemma serialize_bits: "list_all is_bit_char (serialize data)"
  by (induction data) (simp_all add: serialize_def format_08b_bits)

lemma binary_data_bits: "list_all is_bit_char (binary_data_of t s)"
proof -
  have "list_all is_bit_char (concat (replicate k (serialize d)))" for k d
    by (induction k) (simp_all add: serialize_bits)
  then show ?thesis by (simp add: binary_data_of_def)
qed

lemma length_serialize:
  "list_all (\<lambda>c. c < 256) data \<Longrightarrow> length (serialize data) = 8 * length data"
  by (induction data) (simp_all add: serialize_def length_format_08b)

lemma length_concat_replicate: "length (concat (replicate k xs)) = k * length xs"
  by (induction k) simp_all

lemma length_binary_data:
  "list_all (\<lambda>c. c < 256) t \<Longrightarrow>
   length (binary_data_of t s) = 8 * (length t + 4) * nat s"
proof -
  assume "list_all (\<lambda>c. c < 256) t"
  then have "list_all (\<lambda>c. c < 256) (t @ delimiter)"
    by (simp add: delimiter_def of_ascii_def)
  from length_serialize[OF this] show ?thesis
    by (simp add: binary_data_of_def length_concat_replicate delimiter_def of_ascii_def)
qed

lemma embed_Inr_cases:
  assumes "embed_watermark_lsb im t s = Inr (out, bits)"
  shows "bits = binary_data_of t s" and "length bits \<le> length (pixels im)"
    and "out = \<lparr>height = height im, width = width im,
           pixels = map (\<lambda>w. ucast (w AND 0xFF)) (flat (embed_loop bits (load_mem im)))\<rparr>"
  using assms by (auto simp add: embed_watermark_lsb_def Let_def load_mem_def split: if_splits)

text \<open>
  C9. In a successful embed the output has the shape of the input; each of its first
  \<open>len(binary_data)\<close> samples is the input sample with the least-significant bit
  replaced by the watermark bit and every other bit kept; every later sample is the
  input sample; and the buffer of the caller's image is what it was (the loop writes
  to the uint16 copy only).
\<close>

theorem embed_frame:
  assumes "embed_watermark_lsb im t s = Inr (out, bits)"
  shows "bits = binary_data_of t s
    \<and> height out = height im \<and> width out = width im
    \<and> length (pixels out) = length (pixels im)
    \<and> (\<forall>i < length bits.
          pixels out ! i = (pixels im ! i AND 0xFE) OR (if bits ! i = CHR ''1'' then 1 else 0))
    \<and> (\<forall>i < length bits. \<forall>k.
          bit (pixels out ! i) k = (if k = 0 then bits ! i = CHR ''1'' else bit (pixels im ! i) k))
    \<and> (\<forall>i. length bits \<le> i \<and> i < length (pixels im) \<longrightarrow> pixels out ! i = pixels im ! i)
    \<and> src (embed_loop bits (load_mem im)) = pixels im"
proof -
  note c = embed_Inr_cases[OF assms]
  have len: "length (pixels out) = length (pixels im)"
    using embed_loop_props(2)[OF c(2)] c(3) by simp
  have nth: "pixels out ! i =
     (if i < length bits then (pixels im ! i AND 0xFE) OR (if bits ! i = CHR ''1'' then 1 else 0)
      else pixels im ! i)" if "i < length (pixels im)" for i
    using embed_pixels_nth[OF c(2) that] c(3) by simp
  have a: "pixels out ! i = (pixels im ! i AND 0xFE) OR (if bits ! i = CHR ''1'' then 1 else 0)"
    if "i < length bits" for i
    using nth[of i] that c(2) by simp
  have b: "bit (pixels out ! i) k = (if k = 0 then bits ! i = CHR ''1'' else bit (pixels im ! i) k)"
    if "i < length bits" for i k
    unfolding a[OF that] by (rule embed_sample_bits)
  have d: "pixels out ! i = pixels im ! i" if "length bits \<le> i" "i < length (pixels im)" for i
    using nth[OF that(2)] that(1) by simp
  from c(1) c(3) len a b d embed_loop_props(1)[OF c(2)] show ?thesis by simp
qed

theorem embed_frame_witness:
  "embed_watermark_lsb \<lparr>height = 1, width = 11, pixels = replicate 33 255\<rparr> [] 1 =
     Inr (\<lparr>height = 1, width = 11, pixels =
       [254, 255, 254, 254, 254, 254, 254, 254, 254, 255, 254, 254, 254, 254, 254, 254, 254,
        255, 254, 254, 254, 254, 254, 254, 254, 255, 254, 254, 254, 254, 254, 254, 255]\<rparr>,
       ''01000000010000000100000001000000'')
   \<and> src (embed_loop ''01000000010000000100000001000000''
         (load_mem \<lparr>height = 1, width = 11, pixels = replicate 33 255\<rparr>)) = replicate 33 255"
proof -
  have h: "embed_watermark_lsb \<lparr>height = 1, width = 11, pixels = replicate 33 255\<rparr> [] 1 =
     Inr (\<lparr>height = 1, width = 11, pixels =
       [254, 255, 254, 254, 254, 254, 254, 254, 254, 255, 254, 254, 254, 254, 254, 254, 254,
        255, 254, 254, 254, 254, 254, 254, 254, 255, 254, 254, 254, 254, 254, 254, 255]\<rparr>,
       ''01000000010000000100000001000000'')"
    by code_simp
  from embed_frame [OF h]
  have "src (embed_loop ''01000000010000000100000001000000''
         (load_mem \<lparr>height = 1, width = 11, pixels = replicate 33 255\<rparr>))
        = pixels \<lparr>height = 1, width = 11, pixels = replicate 33 255\<rparr>"
    by blast
  with h show ?thesis by simp
qed

text \<open>
  C2, as the code has it. For an identifier of code points below 256, on an image of
  \<open>height * width * 3\<close> samples, embed raises ValueError (the specification's
  CapacityError) exactly when \<open>8 * (len(identifier) + 4) * strength\<close> exceeds the
  number of samples; otherwise, also when the two are equal, it returns an image
  together with the bit string of that length. The error is the whole result: no image
  comes with it.
\<close>

theorem embed_capacity:
  assumes "valid_image im" and "list_all (\<lambda>c. c < 256) t"
  shows "(embed_watermark_lsb im t s = Inl ValueError)
           = (int (height im * width im * 3) < 8 * (int (length t) + 4) * s)
    \<and> (8 * (int (length t) + 4) * s \<le> int (height im * width im * 3) \<longrightarrow>
         (\<exists>out. embed_watermark_lsb im t s = Inr (out, binary_data_of t s)
            \<and> length (binary_data_of t s) = 8 * (length t + 4) * nat s))"
proof -
  from assms(1) have l: "length (pixels im) = height im * width im * 3"
    by (simp add: valid_image_def)
  note len = length_binary_data[OF assms(2), of s]
  have key: "(int (height im * width im * 3) < 8 * (int (length t) + 4) * s)
      = (length (pixels im) < length (binary_data_of t s))"
  proof (cases "0 \<le> s")
    case True
    then have "int (length (binary_data_of t s)) = 8 * (int (length t) + 4) * s"
      by (simp add: len)
    then have "(int (length (pixels im)) < 8 * (int (length t) + 4) * s)
        = (int (length (pixels im)) < int (length (binary_data_of t s)))" by simp
    then show ?thesis by (simp only: l of_nat_less_iff)
  next
    case False
    then have "8 * (int (length t) + 4) * s < 0" by (intro mult_pos_neg) simp_all
    then have a: "\<not> int (height im * width im * 3) < 8 * (int (length t) + 4) * s"
      by linarith
    from False have b: "\<not> length (pixels im) < length (binary_data_of t s)"
      by (simp add: len)
    from a b show ?thesis by blast
  qed
  show ?thesis
  proof (cases "length (pixels im) < length (binary_data_of t s)")
    case True
    from embed_failure[OF True] True key show ?thesis by simp
  next
    case False
    then have "length (binary_data_of t s) \<le> length (pixels im)" by simp
    from embed_success[OF this] False key len show ?thesis by simp
  qed
qed

theorem embed_capacity_witness:
  "valid_image \<lparr>height = 1, width = 16, pixels = replicate 48 0\<rparr>
   \<and> list_all (\<lambda>c. c < 256) (of_ascii ''hi'')
   \<and> length (binary_data_of (of_ascii ''hi'') 1) = 48
   \<and> (\<exists>out. embed_watermark_lsb \<lparr>height = 1, width = 16, pixels = replicate 48 0\<rparr> (of_ascii ''hi'') 1
          = Inr (out, binary_data_of (of_ascii ''hi'') 1))
   \<and> valid_image \<lparr>height = 1, width = 15, pixels = replicate 45 0\<rparr>
   \<and> embed_watermark_lsb \<lparr>height = 1, width = 15, pixels = replicate 45 0\<rparr> (of_ascii ''hi'') 1
          = Inl ValueError"
proof -
  have v: "valid_image \<lparr>height = 1, width = 16, pixels = replicate 48 0\<rparr>"
    "valid_image \<lparr>height = 1, width = 15, pixels = replicate 45 0\<rparr>"
    by (simp_all add: valid_image_def)
  have a: "list_all (\<lambda>c. c < 256) (of_ascii ''hi'')" by (simp add: of_ascii_def)
  from embed_capacity [OF v(1) a, of 1] embed_capacity [OF v(2) a, of 1] v a
  show ?thesis by (simp add: of_ascii_def)
qed

text \<open>
  C2 for every identifier fails: the two-character identifier of code points 256 and
  256 with strength 1 has the count \<open>8 * (2 + 4) * 1 = 48\<close>, which equals the 48
  samples of a 16-pixel row, yet embed raises ValueError, because
  \<open>format(256, '08b')\<close> is nine digits long and the bit string has 50 bits.
\<close>

theorem embed_capacity_counterexample:
  "valid_image \<lparr>height = 1, width = 16, pixels = replicate 48 0\<rparr>
   \<and> 8 * (length [256, 256 :: nat] + 4) * nat 1 = (1::nat) * 16 * 3
   \<and> length (binary_data_of [256, 256] 1) = 50
   \<and> embed_watermark_lsb \<lparr>height = 1, width = 16, pixels = replicate 48 0\<rparr> [256, 256] 1
         = Inl ValueError"
proof -
  have "valid_image \<lparr>height = 1, width = 16, pixels = replicate 48 0\<rparr>"
    by (simp add: valid_image_def)
  moreover have "length (binary_data_of [256, 256] 1) = 50" by code_simp
  moreover have "embed_watermark_lsb \<lparr>height = 1, width = 16, pixels = replicate 48 0\<rparr> [256, 256] 1
         = Inl ValueError" by code_simp
  ultimately show ?thesis by simp
qed

section \<open>Decoding the scan window\<close>

lemma bits_val_bound: "bits_val b < 2 ^ length b"
proof (induction b rule: rev_induct)
  case Nil
  show ?case by (simp add: bits_val_def)
next
  case (snoc c b)
  have "bit_val c \<le> 1" by (simp add: bit_val_def)
  with snoc show ?case by (simp add: bits_val_snoc)
qed

lemma all_bytes_group:
  assumes "b \<in> set (all_bytes s)"
  shows "b \<noteq> []" and "length b \<le> 8" and "set b \<subseteq> set s"
proof -
  from assms obtain k where k: "k < (length s + 7) div 8" "b = take 8 (drop (8 * k) s)"
    by (auto simp: all_bytes_def)
  from k(1) have "8 * k < length s" by (simp add: less_mult_imp_div_less)
  with k(2) show "b \<noteq> []" by simp
  from k(2) show "length b \<le> 8" by simp
  from k(2) show "set b \<subseteq> set s"
    using set_take_subset[of 8 "drop (8 * k) s"] set_drop_subset[of "8 * k" s] by blast
qed

lemma decode_byte_group:
  assumes "b \<in> set (all_bytes s)" and "list_all is_bit_char s"
  shows "decode_byte b = Some (bits_val b)" and "bits_val b < 256"
proof -
  from all_bytes_group[OF assms(1)] have ne: "b \<noteq> []" and len: "length b \<le> 8"
    and sub: "set b \<subseteq> set s" by simp_all
  from sub assms(2) have bits: "list_all is_bit_char b" by (auto simp: list_all_iff)
  have "(2::nat) ^ length b \<le> 2 ^ 8" using len by (intro power_increasing) simp_all
  with bits_val_bound[of b] show lt: "bits_val b < 256" by simp
  then show "decode_byte b = Some (bits_val b)"
    using ne bits by (simp add: decode_byte_def int_base2_def chr_py_def)
qed

lemma decoded_chars_total:
  "list_all (\<lambda>b. decode_byte b \<noteq> None) bs \<Longrightarrow> length (decoded_chars bs) = length bs"
  by (induction bs) (auto simp: decoded_chars_Nil decoded_chars_Cons split: option.splits)

lemmas extract_eval =
  window_text_def lsb_string_eq lsb_char_def all_bytes_rec all_bytes_Nil decoded_chars_Cons
  decoded_chars_Nil decode_byte_def int_base2_def bits_val_def bit_val_def is_bit_char_def
  chr_py_def str_contains_def split_head_def delimiter_def unknown_text_def of_ascii_def


text \<open>
  C10. The \<open>except: continue\<close> branch of the extraction loop is never taken: every
  group cut from the LSB string (the last one may be shorter than 8 bits) is a non-empty
  string of binary digits worth less than 256, so \<open>int(b, 2)\<close> and \<open>chr\<close> both succeed,
  and the decoded string has exactly one character per group gone through.
\<close>

theorem extract_never_skips:
  "(\<forall>b \<in> set (all_bytes (lsb_string fl)). \<exists>n < 256. decode_byte b = Some n)
   \<and> (\<forall>k \<le> length (all_bytes (lsb_string fl)).
         length (decoded_chars (take k (all_bytes (lsb_string fl)))) = k)
   \<and> length (window_text \<lparr>height = h, width = w, pixels = fl\<rparr>) = length (all_bytes (lsb_string fl))"
proof -
  let ?bs = "all_bytes (lsb_string fl)"
  have dec: "decode_byte b = Some (bits_val b) \<and> bits_val b < 256" if "b \<in> set ?bs" for b
    using decode_byte_group[OF that lsb_string_bits] by simp
  then have all: "list_all (\<lambda>b. decode_byte b \<noteq> None) (take k ?bs)" for k
    by (auto simp: list_all_iff dest: in_set_takeD)
  have "length (decoded_chars (take k ?bs)) = k" if "k \<le> length ?bs" for k
    using decoded_chars_total[OF all[of k]] that by simp
  moreover from this[of "length ?bs"] have "length (decoded_chars ?bs) = length ?bs" by simp
  ultimately show ?thesis using dec by (auto simp: window_text_def)
qed

theorem extract_never_skips_witness:
  "length (window_text \<lparr>height = 1, width = 4, pixels = [0, 1, 2, 3, 4, 5, 6, 7, 8, 9, 10, 11]\<rparr>) = 2
   \<and> decode_byte ''01010101'' = Some 85 \<and> decode_byte ''0101'' = Some 5"
proof -
  have g: "all_bytes (lsb_string [0, 1, 2, 3, 4, 5, 6, 7, 8, 9, 10, 11]) = [''01010101'', ''0101'']"
    by (simp add: extract_eval)
  have d: "decode_byte ''01010101'' = Some 85" "decode_byte ''0101'' = Some 5"
    by (simp_all add: extract_eval)
  from extract_never_skips [of "[0, 1, 2, 3, 4, 5, 6, 7, 8, 9, 10, 11]" 1 4] g d
  show ?thesis by simp
qed

text \<open>
  C6, as the code has it. When the text decoded from the scan window does not contain
  the delimiter, extraction returns the sentinel \<open>Unknown\<close> (capital U) with ratio 0.1;
  otherwise it returns the text before the first delimiter with ratio 1.0. The ratio
  takes no other value.
\<close>

theorem extract_outcome:
  "extract_watermark_lsb im =
     (if str_contains delimiter (window_text im)
      then (split_head delimiter (window_text im), 1)
      else (of_ascii ''Unknown'', 0.1))
   \<and> snd (extract_watermark_lsb im) \<in> {1, 0.1}"
  by (simp add: extract_eager window_text_def Let_def unknown_text_def)

theorem extract_outcome_witness:
  "extract_watermark_lsb \<lparr>height = 1, width = 1, pixels = [7, 8, 9]\<rparr> = (of_ascii ''Unknown'', 0.1)"
proof -
  have "window_text \<lparr>height = 1, width = 1, pixels = [7, 8, 9]\<rparr> = [5]"
    by (simp add: extract_eval)
  moreover have "\<not> str_contains delimiter [5]" by (simp add: extract_eval)
  ultimately show ?thesis
    using extract_outcome [of "\<lparr>height = 1, width = 1, pixels = [7, 8, 9]\<rparr>"] by simp
qed

text \<open>
  C6 with the sentinel spelled \<open>unknown\<close> fails on any image without a delimiter:
  the text returned for a single black pixel is \<open>Unknown\<close>.
\<close>

theorem extract_sentinel_counterexample:
  "extract_watermark_lsb \<lparr>height = 1, width = 1, pixels = [0, 0, 0]\<rparr> = (of_ascii ''Unknown'', 0.1)
   \<and> fst (extract_watermark_lsb \<lparr>height = 1, width = 1, pixels = [0, 0, 0]\<rparr>) \<noteq> spec_sentinel"
  by (simp add: extract_eager extract_eval spec_sentinel_def)

subsection \<open>The first occurrence of the delimiter\<close>

lemma str_find_occurrence:
  "str_find pat s = Some i \<Longrightarrow> \<exists>u v. s = u @ pat @ v \<and> length u = i"
proof (induction s arbitrary: i)
  case Nil
  then show ?case by (simp split: if_splits)
next
  case (Cons x xs)
  show ?case
  proof (cases "prefix pat (x # xs)")
    case True
    with Cons.prems have "i = 0" by simp
    moreover from True obtain v where "x # xs = pat @ v" by (auto simp: prefix_def)
    ultimately show ?thesis by auto
  next
    case False
    with Cons.prems obtain j where j: "str_find pat xs = Some j" "i = Suc j" by auto
    from Cons.IH[OF j(1)] obtain u v where "xs = u @ pat @ v" "length u = j" by auto
    with j(2) have "x # xs = (x # u) @ pat @ v \<and> length (x # u) = i" by simp
    then show ?thesis by blast
  qed
qed

lemma str_find_first:
  "\<exists>i \<le> length u. str_find pat (u @ pat @ v) = Some i"
proof (induction u)
  case Nil
  show ?case by (simp add: str_find_prefix)
next
  case (Cons x u)
  then obtain i where i: "i \<le> length u" "str_find pat (u @ pat @ v) = Some i" by auto
  show ?case
  proof (cases "prefix pat ((x # u) @ pat @ v)")
    case True
    then show ?thesis by simp
  next
    case False
    with i show ?thesis by simp
  qed
qed

lemma str_contains_set: "str_contains pat s \<Longrightarrow> set pat \<subseteq> set s"
proof -
  assume "str_contains pat s"
  then obtain i where "str_find pat s = Some i" by (auto simp: str_contains_def)
  from str_find_occurrence[OF this] show ?thesis by auto
qed

lemma delimiter_first:
  assumes no: "\<not> str_contains delimiter t" and tail: "\<not> suffix (of_ascii ''@'') t"
  shows "str_find delimiter (t @ delimiter) = Some (length t)"
proof -
  from str_find_first[of t delimiter "[]"] obtain i
    where i: "i \<le> length t" "str_find delimiter (t @ delimiter) = Some i" by auto
  have "i = length t"
  proof (rule ccontr)
    assume "i \<noteq> length t"
    with i(1) have lt: "i < length t" by simp
    from str_find_occurrence[OF i(2)] obtain u v
      where uv: "t @ delimiter = u @ delimiter @ v" "length u = i" by auto
    define w where "w = drop i t"
    from uv lt have "take i (t @ delimiter) = take i (u @ delimiter @ v)" by simp
    with uv(2) lt have u: "u = take i t" by simp
    from uv have "drop i (t @ delimiter) = drop i (u @ delimiter @ v)" by simp
    with uv(2) lt have w3: "w @ delimiter = delimiter @ v" by (simp add: w_def)
    from u have w1: "t = u @ w" by (simp add: w_def)
    from lt have w2: "w \<noteq> []" by (simp add: w_def)
    note w = w1 w2 w3
    from w(3) consider us where "w = delimiter @ us" | us where "w @ us = delimiter"
      by (auto simp: append_eq_append_conv2)
    then show False
    proof cases
      case 1
      with w(1) have "str_contains delimiter t" by (simp add: str_contains_mid)
      with no show False by simp
    next
      case 2
      then have "set (w @ us) = set delimiter" by simp
      then have "set w \<subseteq> set delimiter" by auto
      moreover from w(2) have "last w \<in> set w" by simp
      ultimately have "last w = 64" by (auto simp: delimiter_def of_ascii_def)
      with w(2) have "w = butlast w @ [64]" by (metis append_butlast_last_id)
      with w(1) have "t = (u @ butlast w) @ of_ascii ''@''" by (simp add: of_ascii_def)
      then have "suffix (of_ascii ''@'') t" by (metis suffixI)
      with tail show False by simp
    qed
  qed
  with i(2) show ?thesis by simp
qed

section \<open>Extraction after embedding\<close>

lemma decoded_chars_format:
  "list_all (\<lambda>c. c < 256) d \<Longrightarrow> decoded_chars (map format_08b d @ bs) = d @ decoded_chars bs"
  by (induction d) (simp_all add: decoded_chars_Cons decode_byte_format)

lemma window_text_serialized:
  assumes "lsb_string (pixels im) = serialize d @ tail" and "list_all (\<lambda>c. c < 256) d"
  shows "window_text im = d @ decoded_chars (all_bytes tail)"
  using assms by (simp add: window_text_def all_bytes_serialize decoded_chars_format)

lemma length_lsb_string: "length (lsb_string fl) = min (length fl) 16000"
  by (simp add: lsb_string_def)

lemma embed_lsb_prefix:
  assumes emb: "embed_watermark_lsb im t s = Inr (out, bits)"
    and n: "n \<le> length bits" "n \<le> 16000"
  shows "take n (lsb_string (pixels out)) = take n bits"
proof (rule nth_equalityI)
  note c = embed_Inr_cases[OF emb]
  have len: "length (pixels out) = length (pixels im)"
    using embed_loop_props(2)[OF c(2)] c(3) by simp
  from len c(2) n show "length (take n (lsb_string (pixels out))) = length (take n bits)"
    by (simp add: length_lsb_string)
  fix i assume "i < length (take n (lsb_string (pixels out)))"
  then have i: "i < n" by simp
  with n c(2) have ib: "i < length bits" and ip: "i < length (pixels im)" and iw: "i < 16000"
    by simp_all
  from binary_data_bits[of t s] c(1) ib have bc: "is_bit_char (bits ! i)"
    by (simp add: list_all_length)
  have "pixels out ! i = (pixels im ! i AND 0xFE) OR (if bits ! i = CHR ''1'' then 1 else 0)"
    using embed_pixels_nth[OF c(2) ip] c(3) ib by simp
  then have "lsb_char (pixels out ! i) = bits ! i"
    using bc by (auto simp add: lsb_char_embed_sample is_bit_char_def)
  moreover have "lsb_string (pixels out) ! i = lsb_char (pixels out ! i)"
    using ip iw len by (simp add: lsb_string_def)
  ultimately show "take n (lsb_string (pixels out)) ! i = take n bits ! i"
    using i by simp
qed

lemma binary_data_prefix:
  "1 \<le> s \<Longrightarrow> \<exists>r. binary_data_of t s = serialize (t @ delimiter) @ r"
proof -
  assume "1 \<le> s"
  then obtain k where "nat s = Suc k" by (cases "nat s") auto
  then show ?thesis by (simp add: binary_data_of_def)
qed

lemma serialize_delimiter: "serialize delimiter = ''01000000010000000100000001000000''"
  by code_simp

lemma replicate_step: "0 < n \<Longrightarrow> replicate n x = x # replicate (n - 1) x"
  by (cases n) simp_all

lemma decoded_chars_format_all:
  "list_all (\<lambda>c. c < 256) d \<Longrightarrow> decoded_chars (map format_08b d) = d"
  using decoded_chars_format[of d "[]"] by (simp add: decoded_chars_Nil)

lemma delimiter_chars: "list_all (\<lambda>c. c < 256) delimiter"
  by (simp add: delimiter_def of_ascii_def)

lemma lsb_string_window: "length win = 16000 \<Longrightarrow> lsb_string (win @ rest) = map lsb_char win"
  by (simp add: lsb_string_eq)

lemma lsb_char_bit_sample: "is_bit_char c \<Longrightarrow> lsb_char (bit_sample c) = c"
  by (auto simp add: lsb_char_def bit_sample_def is_bit_char_def)

lemma lsb_string_bits_image:
  assumes "list_all is_bit_char bits" and "length bits \<le> 16000"
  shows "lsb_string (pixels (bits_image w bits)) = bits"
proof -
  from assms(1) have "map (\<lambda>c. lsb_char (bit_sample c)) bits = bits"
    by (intro map_idI) (simp add: list_all_iff lsb_char_bit_sample)
  with assms(2) show ?thesis by (simp add: lsb_string_eq bits_image_def o_def)
qed

lemma all_bytes_replicate: "all_bytes (replicate (8 * k) c) = replicate k (replicate 8 c)"
proof (induction k)
  case 0
  show ?case by (simp add: all_bytes_Nil)
next
  case (Suc k)
  have "replicate (8 * Suc k) c = replicate 8 c @ replicate (8 * k) c"
    by (simp add: replicate_add[symmetric])
  with Suc show ?case by (simp add: all_bytes_chunk)
qed

lemma decoded_chars_replicate:
  "decode_byte b = Some c \<Longrightarrow> decoded_chars (replicate k b) = replicate k c"
  by (induction k) (simp_all add: decoded_chars_Nil decoded_chars_Cons)

lemma decode_byte_zeros: "decode_byte (replicate 8 CHR ''0'') = Some 0"
  by (simp add: replicate_step decode_byte_def int_base2_def bits_val_def bit_val_def
      is_bit_char_def chr_py_def)

lemma no_delimiter_without_at: "64 \<notin> set t \<Longrightarrow> \<not> str_contains delimiter t"
  using str_contains_set[of delimiter t] by (auto simp: delimiter_def of_ascii_def)

lemma serialize_append: "serialize (a @ b) = serialize a @ serialize b"
  by (simp add: serialize_def)

text \<open>
  C1, as the code has it. Let the identifier consist of code points below 256, contain
  no \<open>@@@@\<close> and not end in \<open>@\<close>, let identifier and delimiter fit into the scan
  window (\<open>8 * (len + 4) \<le> 16000\<close>), let the strength be at least 1 and the image
  have room for the whole bit string. Then embed succeeds, and extract on the image it
  returns gives back the identifier with ratio 1.0.
\<close>

theorem embed_extract_roundtrip:
  assumes chars: "list_all (\<lambda>c. c < 256) t"
    and inside: "\<not> str_contains delimiter t"
    and ending: "\<not> suffix (of_ascii ''@'') t"
    and strength: "1 \<le> s"
    and window: "8 * (length t + 4) \<le> 16000"
    and capacity: "8 * (length t + 4) * nat s \<le> length (pixels im)"
  shows "\<exists>out. embed_watermark_lsb im t s = Inr (out, binary_data_of t s)
           \<and> extract_watermark_lsb out = (t, 1)"
proof -
  let ?B = "serialize (t @ delimiter)"
  from capacity length_binary_data[OF chars, of s]
  have "length (binary_data_of t s) \<le> length (pixels im)" by simp
  from embed_success[OF this] obtain out
    where emb: "embed_watermark_lsb im t s = Inr (out, binary_data_of t s)" by blast
  from chars have cd: "list_all (\<lambda>c. c < 256) (t @ delimiter)"
    by (simp add: delimiter_chars)
  from length_serialize[OF cd] have lB: "length ?B = 8 * (length t + 4)"
    by (simp add: delimiter_def of_ascii_def)
  from binary_data_prefix[OF strength, of t]
  obtain r where r: "binary_data_of t s = ?B @ r" by auto
  then have "length ?B \<le> length (binary_data_of t s)" by simp
  from embed_lsb_prefix[OF emb this] window lB r
  have "take (length ?B) (lsb_string (pixels out)) = ?B" by simp
  then have "lsb_string (pixels out) = ?B @ drop (length ?B) (lsb_string (pixels out))"
    by (metis append_take_drop_id)
  from window_text_serialized[OF this cd]
  obtain y where y: "window_text out = (t @ delimiter) @ y" by simp
  from str_find_append[OF delimiter_first[OF inside ending], of y] y
  have "str_find delimiter (window_text out) = Some (length t)" by simp
  then have "extract_watermark_lsb out = (t, 1)"
    by (simp add: extract_eager Let_def window_text_def[symmetric] str_contains_def split_head_def y)
  with emb show ?thesis by blast
qed


theorem embed_extract_roundtrip_witness:
  "embed_watermark_lsb \<lparr>height = 1, width = 27, pixels = replicate 81 7\<rparr> (of_ascii ''A'') 2 =
     Inr (\<lparr>height = 1, width = 27, pixels =
           [6, 7, 6, 6, 6, 6, 6, 7, 6, 7, 6, 6, 6, 6, 6, 6, 6, 7, 6, 6, 6,
            6, 6, 6, 6, 7, 6, 6, 6, 6, 6, 6, 6, 7, 6, 6, 6, 6, 6, 6, 6, 7,
            6, 6, 6, 6, 6, 7, 6, 7, 6, 6, 6, 6, 6, 6, 6, 7, 6, 6, 6, 6, 6,
            6, 6, 7, 6, 6, 6, 6, 6, 6, 6, 7, 6, 6, 6, 6, 6, 6, 7]\<rparr>,
        ''01000001010000000100000001000000010000000100000101000000010000000100000001000000'')
   \<and> extract_watermark_lsb \<lparr>height = 1, width = 27, pixels =
           [6, 7, 6, 6, 6, 6, 6, 7, 6, 7, 6, 6, 6, 6, 6, 6, 6, 7, 6, 6, 6,
            6, 6, 6, 6, 7, 6, 6, 6, 6, 6, 6, 6, 7, 6, 6, 6, 6, 6, 6, 6, 7,
            6, 6, 6, 6, 6, 7, 6, 7, 6, 6, 6, 6, 6, 6, 6, 7, 6, 6, 6, 6, 6,
            6, 6, 7, 6, 6, 6, 6, 6, 6, 6, 7, 6, 6, 6, 6, 6, 6, 7]\<rparr> = (of_ascii ''A'', 1)"
proof -
  let ?im = "\<lparr>height = 1, width = 27, pixels = replicate 81 7\<rparr>"
  let ?out = "\<lparr>height = 1, width = 27, pixels =
           [6, 7, 6, 6, 6, 6, 6, 7, 6, 7, 6, 6, 6, 6, 6, 6, 6, 7, 6, 6, 6,
            6, 6, 6, 6, 7, 6, 6, 6, 6, 6, 6, 6, 7, 6, 6, 6, 6, 6, 6, 6, 7,
            6, 6, 6, 6, 6, 7, 6, 7, 6, 6, 6, 6, 6, 6, 6, 7, 6, 6, 6, 6, 6,
            6, 6, 7, 6, 6, 6, 6, 6, 6, 6, 7, 6, 6, 6, 6, 6, 6, 7 :: 8 word]\<rparr>"
  have h: "embed_watermark_lsb ?im (of_ascii ''A'') 2 = Inr (?out,
        ''01000001010000000100000001000000010000000100000101000000010000000100000001000000'')"
    by code_simp
  have 1: "list_all (\<lambda>c. c < 256) (of_ascii ''A'')" by (simp add: of_ascii_def)
  have 2: "\<not> str_contains delimiter (of_ascii ''A'')"
    by (simp add: str_contains_def delimiter_def of_ascii_def)
  have 3: "\<not> suffix (of_ascii ''@'') (of_ascii ''A'')" by (simp add: of_ascii_def suffix_def)
  have 4: "(1::int) \<le> 2" by simp
  have 5: "8 * (length (of_ascii ''A'') + 4) \<le> 16000" by (simp add: of_ascii_def)
  have 6: "8 * (length (of_ascii ''A'') + 4) * nat 2 \<le> length (pixels ?im)"
    by (simp add: of_ascii_def)
  from embed_extract_roundtrip [OF 1 2 3 4 5 6] obtain out
    where "embed_watermark_lsb ?im (of_ascii ''A'') 2 = Inr (out, binary_data_of (of_ascii ''A'') 2)"
      and "extract_watermark_lsb out = (of_ascii ''A'', 1)" by blast
  with h show ?thesis by simp
qed

text \<open>
  C1 for every identifier fails: the identifier \<open>@\<close> embedded with strength 1 into
  14 black pixels comes back as the empty string, because the first \<open>@@@@\<close> of
  \<open>@@@@@\<close> starts at the identifier's own character.
\<close>

theorem embed_extract_roundtrip_counterexample:
  "embed_watermark_lsb \<lparr>height = 1, width = 14, pixels = replicate 42 0\<rparr> (of_ascii ''@'') 1 =
     Inr (\<lparr>height = 1, width = 14, pixels =
           [0, 1, 0, 0, 0, 0, 0, 0, 0, 1, 0, 0, 0, 0, 0, 0, 0, 1, 0, 0, 0,
            0, 0, 0, 0, 1, 0, 0, 0, 0, 0, 0, 0, 1, 0, 0, 0, 0, 0, 0, 0, 0]\<rparr>,
        ''0100000001000000010000000100000001000000'')
   \<and> extract_watermark_lsb \<lparr>height = 1, width = 14, pixels =
           [0, 1, 0, 0, 0, 0, 0, 0, 0, 1, 0, 0, 0, 0, 0, 0, 0, 1, 0, 0, 0,
            0, 0, 0, 0, 1, 0, 0, 0, 0, 0, 0, 0, 1, 0, 0, 0, 0, 0, 0, 0, 0]\<rparr> = ([], 1)
   \<and> of_ascii ''@'' \<noteq> []"
proof -
  have "embed_watermark_lsb \<lparr>height = 1, width = 14, pixels = replicate 42 0\<rparr> (of_ascii ''@'') 1 =
     Inr (\<lparr>height = 1, width = 14, pixels =
           [0, 1, 0, 0, 0, 0, 0, 0, 0, 1, 0, 0, 0, 0, 0, 0, 0, 1, 0, 0, 0,
            0, 0, 0, 0, 1, 0, 0, 0, 0, 0, 0, 0, 1, 0, 0, 0, 0, 0, 0, 0, 0]\<rparr>,
        ''0100000001000000010000000100000001000000'')"
    by code_simp
  moreover have "extract_watermark_lsb \<lparr>height = 1, width = 14, pixels =
           [0, 1, 0, 0, 0, 0, 0, 0, 0, 1, 0, 0, 0, 0, 0, 0, 0, 1, 0, 0, 0,
            0, 0, 0, 0, 1, 0, 0, 0, 0, 0, 0, 0, 1, 0, 0, 0, 0, 0, 0, 0, 0]\<rparr> = ([], 1)"
    by (simp add: extract_watermark_lsb_def lsb_string_eq lsb_char_def all_bytes_rec all_bytes_Nil
        decode_byte_def int_base2_def bits_val_def bit_val_def is_bit_char_def chr_py_def
        str_contains_def split_head_def delimiter_def of_ascii_def)
  moreover have "of_ascii ''@'' \<noteq> []" by (simp add: of_ascii_def)
  ultimately show ?thesis by blast
qed

text \<open>
  The other two conditions on the identifier are needed as well. A code point of 256
  is written as nine bits, which shifts the delimiter off the 8-bit grid; and an
  identifier of 2000 characters fills the scan window, so the delimiter behind it is
  not reached.
\<close>

lemma roundtrip_wide_code_point:
  "embed_watermark_lsb \<lparr>height = 1, width = 14, pixels = replicate 42 0\<rparr> [256] 1 =
     Inr (\<lparr>height = 1, width = 14, pixels =
           [1, 0, 0, 0, 0, 0, 0, 0, 0, 0, 1, 0, 0, 0, 0, 0, 0, 0, 1, 0, 0,
            0, 0, 0, 0, 0, 1, 0, 0, 0, 0, 0, 0, 0, 1, 0, 0, 0, 0, 0, 0, 0]\<rparr>,
        ''10000000001000000010000000100000001000000'')
   \<and> extract_watermark_lsb \<lparr>height = 1, width = 14, pixels =
           [1, 0, 0, 0, 0, 0, 0, 0, 0, 0, 1, 0, 0, 0, 0, 0, 0, 0, 1, 0, 0,
            0, 0, 0, 0, 0, 1, 0, 0, 0, 0, 0, 0, 0, 1, 0, 0, 0, 0, 0, 0, 0]\<rparr>
       = (of_ascii ''Unknown'', 0.1)"
proof -
  have "embed_watermark_lsb \<lparr>height = 1, width = 14, pixels = replicate 42 0\<rparr> [256] 1 =
     Inr (\<lparr>height = 1, width = 14, pixels =
           [1, 0, 0, 0, 0, 0, 0, 0, 0, 0, 1, 0, 0, 0, 0, 0, 0, 0, 1, 0, 0,
            0, 0, 0, 0, 0, 1, 0, 0, 0, 0, 0, 0, 0, 1, 0, 0, 0, 0, 0, 0, 0]\<rparr>,
        ''10000000001000000010000000100000001000000'')"
    by code_simp
  moreover have "extract_watermark_lsb \<lparr>height = 1, width = 14, pixels =
           [1, 0, 0, 0, 0, 0, 0, 0, 0, 0, 1, 0, 0, 0, 0, 0, 0, 0, 1, 0, 0,
            0, 0, 0, 0, 0, 1, 0, 0, 0, 0, 0, 0, 0, 1, 0, 0, 0, 0, 0, 0, 0]\<rparr>
       = (of_ascii ''Unknown'', 0.1)"
    by (simp add: extract_watermark_lsb_def lsb_string_eq lsb_char_def all_bytes_rec all_bytes_Nil
        decode_byte_def int_base2_def bits_val_def bit_val_def is_bit_char_def chr_py_def
        str_contains_def split_head_def delimiter_def unknown_text_def of_ascii_def)
  ultimately show ?thesis by blast
qed

lemma roundtrip_beyond_window:
  "(case embed_watermark_lsb \<lparr>height = 1, width = 5344, pixels = replicate 16032 0\<rparr>
           (replicate 2000 65) 1 of
      Inl e \<Rightarrow> False
    | Inr (out, bits) \<Rightarrow> extract_watermark_lsb out = (of_ascii ''Unknown'', 0.1))"
proof -
  let ?im = "\<lparr>height = 1, width = 5344, pixels = replicate 16032 0\<rparr>"
  let ?t = "replicate 2000 (65::nat)"
  have chars: "list_all (\<lambda>c. c < 256) ?t" by (simp add: list_all_iff)
  have lt: "length (serialize ?t) = 16000" using length_serialize[OF chars] by simp
  have bd: "binary_data_of ?t 1 = serialize ?t @ serialize delimiter"
    by (simp add: binary_data_of_def serialize_append)
  have lb: "length (binary_data_of ?t 1) = 16032"
    using length_binary_data[OF chars, of 1] by simp
  then have "length (binary_data_of ?t 1) \<le> length (pixels ?im)" by simp
  from embed_success[OF this] obtain out
    where emb: "embed_watermark_lsb ?im ?t 1 = Inr (out, binary_data_of ?t 1)" by blast
  have lo: "length (pixels out) = 16032"
    using embed_loop_props(2)[of "binary_data_of ?t 1" ?im] embed_Inr_cases(3)[OF emb] lb by simp
  have "take 16000 (lsb_string (pixels out)) = take 16000 (binary_data_of ?t 1)"
    using embed_lsb_prefix[OF emb, of 16000] lb by simp
  moreover have "length (lsb_string (pixels out)) = 16000" using lo by (simp add: length_lsb_string)
  ultimately have "lsb_string (pixels out) = serialize ?t @ []" using bd lt by simp
  from window_text_serialized[OF this chars] have "window_text out = ?t"
    by (simp add: all_bytes_Nil decoded_chars_Nil)
  moreover have "\<not> str_contains delimiter ?t" by (rule no_delimiter_without_at) simp
  ultimately have "extract_watermark_lsb out = (of_ascii ''Unknown'', 0.1)"
    by (simp add: extract_eager Let_def window_text_def[symmetric] unknown_text_def)
  with emb show ?thesis by simp
qed

section \<open>The scan window\<close>

lemma zeros_bits: "list_all is_bit_char (replicate k CHR ''0'')"
  by (simp add: list_all_iff is_bit_char_def)

lemma zero_window_text:
  "decoded_chars (all_bytes (map lsb_char (replicate 16000 0))) = replicate 2000 0"
proof -
  have "map lsb_char (replicate 16000 0) = replicate (8 * 2000) CHR ''0''"
    by (simp add: lsb_char_def)
  then show ?thesis
    by (simp only: all_bytes_replicate decoded_chars_replicate[OF decode_byte_zeros])
qed

text \<open>
  C5, as the code has it. Extraction depends on nothing but the least-significant bits
  of the first 16000 samples, in flattening order. When the text decoded from a full
  window holds no delimiter, the result is the sentinel with ratio 0.1, whatever
  follows the window. A delimiter whose 32 bits start at a sample index divisible by 8
  (the groups of 8 bits are cut from sample 0 on) and end inside the window is found
  with ratio 1.0.
\<close>

theorem extract_scan_window:
  "(map lsb_char (take 16000 (pixels im1)) = map lsb_char (take 16000 (pixels im2)) \<longrightarrow>
      extract_watermark_lsb im1 = extract_watermark_lsb im2)
   \<and> (length win = 16000 \<and> \<not> str_contains delimiter (decoded_chars (all_bytes (map lsb_char win))) \<longrightarrow>
      extract_watermark_lsb \<lparr>height = h, width = w, pixels = win @ rest\<rparr> = (unknown_text, 0.1))
   \<and> (lsb_string (pixels im) = pre @ serialize delimiter @ post \<and> 8 dvd length pre \<longrightarrow>
      snd (extract_watermark_lsb im) = 1)"
proof (intro conjI impI)
  assume "map lsb_char (take 16000 (pixels im1)) = map lsb_char (take 16000 (pixels im2))"
  then show "extract_watermark_lsb im1 = extract_watermark_lsb im2"
    by (simp add: extract_watermark_lsb_def lsb_string_eq)
next
  assume "length win = 16000 \<and> \<not> str_contains delimiter (decoded_chars (all_bytes (map lsb_char win)))"
  then show "extract_watermark_lsb \<lparr>height = h, width = w, pixels = win @ rest\<rparr> = (unknown_text, 0.1)"
    by (simp add: extract_eager Let_def lsb_string_window)
next
  assume a: "lsb_string (pixels im) = pre @ serialize delimiter @ post \<and> 8 dvd length pre"
  then have "all_bytes (lsb_string (pixels im)) =
      all_bytes pre @ map format_08b delimiter @ all_bytes post"
    by (simp add: all_bytes_append all_bytes_serialize[OF delimiter_chars])
  then have "decoded_chars (all_bytes (lsb_string (pixels im))) =
      decoded_chars (all_bytes pre) @ delimiter @ decoded_chars (all_bytes post)"
    by (simp add: decoded_chars_append decoded_chars_format_all[OF delimiter_chars])
  then show "snd (extract_watermark_lsb im) = 1"
    by (simp add: extract_eager Let_def str_contains_mid)
qed

theorem extract_scan_window_witness:
  "extract_watermark_lsb \<lparr>height = 1, width = 1, pixels = [2, 3, 5]\<rparr>
     = extract_watermark_lsb \<lparr>height = 1, width = 1, pixels = [0, 1, 1]\<rparr>
   \<and> extract_watermark_lsb
        \<lparr>height = 1, width = 5344, pixels = replicate 16000 0 @ map bit_sample (serialize delimiter)\<rparr>
       = (unknown_text, 0.1)
   \<and> snd (extract_watermark_lsb (bits_image 46
        (replicate 96 CHR ''0'' @ serialize delimiter @ replicate 10 CHR ''0''))) = 1"
proof -
  have a: "map lsb_char (take 16000 (pixels \<lparr>height = 1, width = 1, pixels = [2, 3, 5]\<rparr>))
      = map lsb_char (take 16000 (pixels \<lparr>height = 1, width = 1, pixels = [0, 1, 1]\<rparr>))"
    by (simp add: lsb_char_def)
  have "\<not> str_contains delimiter (decoded_chars (all_bytes (map lsb_char (replicate 16000 0))))"
    unfolding zero_window_text by (rule no_delimiter_without_at) simp
  then have b: "length (replicate 16000 (0::8 word)) = 16000
      \<and> \<not> str_contains delimiter (decoded_chars (all_bytes (map lsb_char (replicate 16000 0))))"
    by simp
  have "list_all is_bit_char (replicate 96 CHR ''0'' @ serialize delimiter @ replicate 10 CHR ''0'')"
    by (simp add: serialize_bits zeros_bits)
  then have c: "lsb_string (pixels (bits_image 46
        (replicate 96 CHR ''0'' @ serialize delimiter @ replicate 10 CHR ''0'')))
      = replicate 96 CHR ''0'' @ serialize delimiter @ replicate 10 CHR ''0''
      \<and> 8 dvd length (replicate 96 CHR ''0'')"
    by (simp add: lsb_string_bits_image serialize_delimiter)
  from extract_scan_window
    [of "\<lparr>height = 1, width = 1, pixels = [2, 3, 5]\<rparr>" "\<lparr>height = 1, width = 1, pixels = [0, 1, 1]\<rparr>"
        "replicate 16000 0" 1 5344 "map bit_sample (serialize delimiter)"
        "bits_image 46 (replicate 96 CHR ''0'' @ serialize delimiter @ replicate 10 CHR ''0'')"
        "replicate 96 CHR ''0''" "replicate 10 CHR ''0''"] a b c
  show ?thesis by blast
qed

text \<open>
  C5 with the delimiter at sample 100 fails: in an image whose least-significant bits
  are zero except for the 32 delimiter bits at samples 100 to 131, every group of 8
  bits straddles two delimiter bytes and decodes to 0 or 4, so nothing is found.
\<close>

theorem extract_scan_window_counterexample:
  "lsb_string (pixels (bits_image 46
      (replicate 100 CHR ''0'' @ serialize delimiter @ replicate 6 CHR ''0'')))
     = replicate 100 CHR ''0'' @ serialize delimiter @ replicate 6 CHR ''0''
   \<and> extract_watermark_lsb (bits_image 46
      (replicate 100 CHR ''0'' @ serialize delimiter @ replicate 6 CHR ''0''))
     = (of_ascii ''Unknown'', 0.1)"
proof -
  have "list_all is_bit_char (replicate 100 CHR ''0'' @ serialize delimiter @ replicate 6 CHR ''0'')"
    by (simp add: serialize_bits zeros_bits)
  then have l: "lsb_string (pixels (bits_image 46
      (replicate 100 CHR ''0'' @ serialize delimiter @ replicate 6 CHR ''0'')))
     = replicate 100 CHR ''0'' @ serialize delimiter @ replicate 6 CHR ''0''"
    by (simp add: lsb_string_bits_image serialize_delimiter)
  have "decode_loop (all_bytes (replicate 100 CHR ''0'' @ serialize delimiter @ replicate 6 CHR ''0'')) []
      = (of_ascii ''Unknown'', 0.1)"
    unfolding serialize_delimiter
    by (simp add: replicate_step all_bytes_rec all_bytes_Nil
        decode_byte_def int_base2_def bits_val_def bit_val_def is_bit_char_def chr_py_def
        str_contains_def split_head_def delimiter_def unknown_text_def of_ascii_def)
  with l show ?thesis by (simp add: extract_watermark_lsb_def)
qed

section \<open>The verification classifier\<close>

lemma classify_tamper:
  "snd (classify found ratio) =
     (if found then (if ratio > 0.9 then ''intact'' else ''modified'')
      else (if ratio > 0.4 then ''modified'' else ''no watermark''))"
  by (simp add: classify_def)

lemma verify_image_classify:
  "(confidence (verify_image (t, ratio) rec), tamper_status (verify_image (t, ratio) rec)) =
     classify (watermark_found (verify_image (t, ratio) rec)) ratio"
  by (simp add: verify_image_def Let_def split: prod.splits)

text \<open>
  C3. Whatever \<open>found\<close> and \<open>match_ratio\<close> are, the confidence that comes out of the
  branch selection and the final \<open>max(0, min(100, confidence))\<close> lies between 0 and 100.
\<close>

theorem classify_confidence_range:
  "0 \<le> fst (classify found ratio) \<and> fst (classify found ratio) \<le> 100"
  by (simp add: classify_def split: prod.splits)

theorem classify_confidence_range_witness:
  "0 \<le> fst (classify True 0.9) \<and> fst (classify True 0.9) \<le> 100
   \<and> 0 \<le> fst (classify False (-3)) \<and> fst (classify False (-3)) \<le> 100
   \<and> 0 \<le> fst (classify False 7) \<and> fst (classify False 7) \<le> 100"
  using classify_confidence_range [of True "0.9"] classify_confidence_range [of False "-3"]
    classify_confidence_range [of False 7]
  by simp

text \<open>
  C4. The tamper status is the piecewise function of \<open>found\<close> and \<open>match_ratio\<close>
  with the strict thresholds 0.9, 0.7 and 0.4: a found watermark at ratio 0.9 is
  \<open>modified\<close>, at 0.91 it is \<open>intact\<close>, and the status is always one of the three
  words \<open>intact\<close>, \<open>modified\<close>, \<open>no watermark\<close> (the enum value \<open>no_watermark\<close>).
\<close>

theorem classify_tamper_mapping:
  "snd (classify found ratio) =
     (if found \<and> ratio > 0.9 then ''intact''
      else if found \<and> ratio > 0.7 then ''modified''
      else if found then ''modified''
      else if ratio > 0.4 then ''modified''
      else ''no watermark'')
   \<and> snd (classify True 0.9) = ''modified''
   \<and> snd (classify True 0.91) = ''intact''
   \<and> snd (classify found ratio) \<in> {''intact'', ''modified'', ''no watermark''}"
  by (simp add: classify_tamper)

theorem classify_tamper_mapping_witness:
  "snd (classify True 0.8) = ''modified'' \<and> snd (classify False 0.5) = ''modified''
   \<and> snd (classify False 0.4) = ''no watermark'' \<and> snd (classify True 0.1) = ''modified''
   \<and> snd (classify True 1) = ''intact''"
  using classify_tamper_mapping [of True "0.8"] classify_tamper_mapping [of False "0.5"]
    classify_tamper_mapping [of False "0.4"] classify_tamper_mapping [of True "0.1"]
    classify_tamper_mapping [of True 1]
  by simp

text \<open>
  C7, as the code has it. \<open>watermark_found\<close> holds exactly when a record was found or
  the ratio exceeds 0.5 and the extracted text is not the sentinel \<open>Unknown\<close> (capital
  U); \<open>owner_id\<close> is the record's owner when there is a record, else the extracted
  text unless it is \<open>Unknown\<close>, else null.
\<close>

theorem verify_found_owner:
  "watermark_found (verify_image (t, ratio) rec) =
     (rec \<noteq> None \<or> (ratio > 0.5 \<and> t \<noteq> of_ascii ''Unknown''))
   \<and> owner_id (verify_image (t, ratio) rec) =
     (case rec of Some r \<Rightarrow> Some (record_owner_id r)
      | None \<Rightarrow> (if t \<noteq> of_ascii ''Unknown'' then Some t else None))"
  by (simp add: verify_image_def Let_def unknown_text_def split: prod.splits)

theorem verify_found_owner_witness:
  "watermark_found (verify_image (of_ascii ''alice'', 1) None)
   \<and> owner_id (verify_image (of_ascii ''alice'', 1) None) = Some (of_ascii ''alice'')
   \<and> \<not> watermark_found (verify_image (of_ascii ''Unknown'', 0.1) None)
   \<and> owner_id (verify_image (of_ascii ''Unknown'', 0.1) None) = None
   \<and> watermark_found (verify_image (of_ascii ''Unknown'', 0.1) (Some \<lparr>record_owner_id = of_ascii ''bob''\<rparr>))
   \<and> owner_id (verify_image (of_ascii ''Unknown'', 0.1) (Some \<lparr>record_owner_id = of_ascii ''bob''\<rparr>))
       = Some (of_ascii ''bob'')"
  using verify_found_owner [of "of_ascii ''alice''" 1 None]
    verify_found_owner [of "of_ascii ''Unknown''" "0.1" None]
    verify_found_owner [of "of_ascii ''Unknown''" "0.1" "Some \<lparr>record_owner_id = of_ascii ''bob''\<rparr>"]
  by (simp add: of_ascii_def)

text \<open>
  C7, as the specification words it, fails where the extracted text is the lower-case
  word \<open>unknown\<close> with ratio 1.0 and no record: the code reports the watermark as
  found and \<open>unknown\<close> as its owner, the worded rule gives not found and null.
\<close>

theorem verify_found_owner_counterexample:
  "watermark_found (verify_image (of_ascii ''unknown'', 1) None)
     \<noteq> spec_found (of_ascii ''unknown'', 1) None
   \<and> owner_id (verify_image (of_ascii ''unknown'', 1) None)
     \<noteq> spec_owner (of_ascii ''unknown'', 1) None"
  by (simp add: verify_image_def Let_def unknown_text_def spec_found_def spec_owner_def
      spec_sentinel_def of_ascii_def split: prod.splits)

section \<open>The protection route\<close>

text \<open>
  C8. A strength of at most 1.0 reaches the perturber unchanged as epsilon; a strength
  above 1.0 is read on the 0-100 scale and becomes \<open>strength / 100 * 0.05\<close>, which for
  strengths up to 100 lies in the interval from 0 to 0.05.
\<close>

theorem process_epsilon_convention:
  "(strength \<le> 1 \<longrightarrow> process_epsilon strength = strength)
   \<and> (strength > 1 \<longrightarrow> process_epsilon strength = strength / 100 * 0.05)
   \<and> (1 < strength \<and> strength \<le> 100 \<longrightarrow>
        0 \<le> process_epsilon strength \<and> process_epsilon strength \<le> 0.05)"
  by (auto simp add: process_epsilon_def)

theorem process_epsilon_convention_witness:
  "(50::real) > 1 \<and> (50::real) \<le> 100 \<and> process_epsilon 50 = 0.025
   \<and> (0.01::real) \<le> 1 \<and> process_epsilon 0.01 = 0.01"
  using process_epsilon_convention [of 50] process_epsilon_convention [of "0.01"]
  by simp

end
